theory Spec2Isabelle
  imports Complex_Main "HOL-Library.Word"
begin

section \<open>FIR filter design and analysis (src/filter/src/firdes.c)\<close>

subsection \<open>Machine integers\<close>

text \<open>
  \<open>unsigned int\<close> and \<open>int\<close> are 32-bit words. Unsigned arithmetic wraps around
  (\<open>+\<close>, \<open>-\<close>, \<open>*\<close> on \<open>32 word\<close>); \<open>unat\<close> reads a word as unsigned and \<open>sint\<close> as
  two's complement. The conversions between \<open>int\<close> and \<open>unsigned int\<close> keep the bits,
  so both types are the same word type here and the sign lives in the operation.
\<close>

type_synonym c_uint = "32 word"
type_synonym c_int = "32 word"

subsection \<open>Floating-point values\<close>

text \<open>
  A value of type \<open>float\<close> or \<open>double\<close> is a finite real number, an infinity or
  not-a-number. The two zeros are one value: the operations of this file tell them
  apart only through a division, and every divisor that can be zero here (a sum of
  squares accumulated from \<open>0.0f\<close>, an unsigned count, \<open>_K+1\<close> at \<open>_K = -1\<close>) is the
  positive zero.
\<close>

datatype cfloat = Fin real | PInf | NInf | NaN

text \<open>A \<open>float *\<close> argument is the memory it points to: cell \<open>i\<close> is \<open>_h[i]\<close>.\<close>

type_synonym fbuf = "nat \<Rightarrow> cfloat"

text \<open>
  Every validation failure of the source prints a message and calls \<open>exit(0)\<close>; the
  model returns the failure instead, one value per message.
\<close>

datatype error =
    InvalidBandwidth
  | InvalidSidelobeLevel
  | MuOutOfRange
  | CutoffOutOfRange
  | ZeroLength

subsection \<open>Rounding\<close>

text \<open>
  IEEE 754 arithmetic in the default mode: the result of an operation is its exact
  result rounded to the nearest value of the format, ties to the even significand.
  \<open>rhe\<close> rounds a real to the nearest integer, ties to even.
\<close>

definition rhe :: "real \<Rightarrow> int" where
  "rhe x =
     (let f = \<lfloor>x\<rfloor>; d = x - of_int f
      in if d < 1 / 2 then f
         else if 1 / 2 < d then f + 1
         else if even f then f else f + 1)"

text \<open>The infinity with the sign of a nonzero real.\<close>

definition signed_inf :: "real \<Rightarrow> cfloat" where
  "signed_inf a = (if 0 < a then PInf else if a < 0 then NInf else NaN)"

text \<open>
  Rounding to the binary format with \<open>p\<close> significand bits and exponents
  \<open>emin .. emax\<close>. For \<open>x\<close> with \<open>2^e \<le> |x| < 2^(e+1)\<close> the values of the format around
  \<open>x\<close> are the multiples of \<open>2^(e-p+1)\<close>; below \<open>2^emin\<close> (subnormal values) they are
  the multiples of \<open>2^(emin-p+1)\<close>, so a small \<open>x\<close> may round to zero. A rounded value
  of magnitude \<open>2^(emax+1)\<close> or more overflows to the infinity of its sign.
\<close>

definition fp_round :: "nat \<Rightarrow> int \<Rightarrow> int \<Rightarrow> real \<Rightarrow> cfloat" where
  "fp_round p emin emax x =
     (if x = 0 then Fin 0
      else
        let e = max emin \<lfloor>log 2 \<bar>x\<bar>\<rfloor>;
            u = 2 powi (e - (int p - 1));
            y = of_int (rhe (x / u)) * u
        in if 2 powi (emax + 1) \<le> \<bar>y\<bar> then signed_inf x else Fin y)"

text \<open>Single precision (\<open>float\<close>) and double precision (\<open>double\<close>).\<close>

definition to_single :: "cfloat \<Rightarrow> cfloat" where
  "to_single x = (case x of Fin r \<Rightarrow> fp_round 24 (- 126) 127 r | _ \<Rightarrow> x)"


subsection \<open>Exact results of the operations\<close>

text \<open>Addition: infinities of opposite sign give not-a-number.\<close>

fun xadd :: "cfloat \<Rightarrow> cfloat \<Rightarrow> cfloat" where
  "xadd (Fin a) (Fin b) = Fin (a + b)"
| "xadd NaN _ = NaN"
| "xadd _ NaN = NaN"
| "xadd PInf NInf = NaN"
| "xadd NInf PInf = NaN"
| "xadd PInf _ = PInf"
| "xadd _ PInf = PInf"
| "xadd NInf _ = NInf"
| "xadd _ NInf = NInf"

fun xneg :: "cfloat \<Rightarrow> cfloat" where
  "xneg (Fin a) = Fin (- a)"
| "xneg PInf = NInf"
| "xneg NInf = PInf"
| "xneg NaN = NaN"

definition xsub :: "cfloat \<Rightarrow> cfloat \<Rightarrow> cfloat" where
  "xsub a b = xadd a (xneg b)"

text \<open>Multiplication: zero times an infinity is not-a-number.\<close>

fun xmul :: "cfloat \<Rightarrow> cfloat \<Rightarrow> cfloat" where
  "xmul (Fin a) (Fin b) = Fin (a * b)"
| "xmul NaN _ = NaN"
| "xmul _ NaN = NaN"
| "xmul (Fin a) PInf = signed_inf a"
| "xmul (Fin a) NInf = signed_inf (- a)"
| "xmul PInf (Fin b) = signed_inf b"
| "xmul NInf (Fin b) = signed_inf (- b)"
| "xmul PInf PInf = PInf"
| "xmul NInf NInf = PInf"
| "xmul PInf NInf = NInf"
| "xmul NInf PInf = NInf"

text \<open>
  Division. A nonzero finite value divided by zero is an infinity, zero divided by zero
  is not-a-number. A finite value divided by an infinity is zero.
\<close>

fun xdiv :: "cfloat \<Rightarrow> cfloat \<Rightarrow> cfloat" where
  "xdiv (Fin a) (Fin b) = (if b = 0 then signed_inf a else Fin (a / b))"
| "xdiv NaN _ = NaN"
| "xdiv _ NaN = NaN"
| "xdiv (Fin a) PInf = Fin 0"
| "xdiv (Fin a) NInf = Fin 0"
| "xdiv PInf (Fin b) = (if 0 \<le> b then PInf else NInf)"
| "xdiv NInf (Fin b) = (if 0 \<le> b then NInf else PInf)"
| "xdiv PInf PInf = NaN"
| "xdiv PInf NInf = NaN"
| "xdiv NInf PInf = NaN"
| "xdiv NInf NInf = NaN"

subsection \<open>The operations of C\<close>

text \<open>
  An operation on two \<open>float\<close> operands is evaluated in single precision and one with
  a \<open>double\<close> operand in double precision, each rounded on its own (\<open>FLT_EVAL_METHOD\<close>
  0, no fused multiply-add). An integer operand is converted to the type of the other
  operand first. The conversion of a \<open>float\<close> to \<open>double\<close> is exact.
\<close>

definition add32 :: "cfloat \<Rightarrow> cfloat \<Rightarrow> cfloat" where
  "add32 a b = to_single (xadd a b)"

definition sub32 :: "cfloat \<Rightarrow> cfloat \<Rightarrow> cfloat" where
  "sub32 a b = to_single (xsub a b)"

definition mul32 :: "cfloat \<Rightarrow> cfloat \<Rightarrow> cfloat" where
  "mul32 a b = to_single (xmul a b)"

definition div32 :: "cfloat \<Rightarrow> cfloat \<Rightarrow> cfloat" where
  "div32 a b = to_single (xdiv a b)"



text \<open>The conversion \<open>(float)\<close> of an unsigned integer rounds it to single precision.\<close>

definition uint_to_float :: "c_uint \<Rightarrow> cfloat" where
  "uint_to_float w = to_single (Fin (real (unat w)))"

fun fabsf :: "cfloat \<Rightarrow> cfloat" where
  "fabsf (Fin a) = Fin \<bar>a\<bar>"
| "fabsf PInf = PInf"
| "fabsf NInf = PInf"
| "fabsf NaN = NaN"

text \<open>The comparisons: false as soon as one side is not-a-number.\<close>

fun fgt :: "cfloat \<Rightarrow> cfloat \<Rightarrow> bool" where
  "fgt (Fin a) (Fin b) = (b < a)"
| "fgt NaN _ = False"
| "fgt _ NaN = False"
| "fgt PInf PInf = False"
| "fgt PInf _ = True"
| "fgt _ PInf = False"
| "fgt NInf _ = False"
| "fgt _ NInf = True"

definition flt :: "cfloat \<Rightarrow> cfloat \<Rightarrow> bool" where
  "flt a b = fgt b a"

definition fle :: "cfloat \<Rightarrow> cfloat \<Rightarrow> bool" where
  "fle a b = (a \<noteq> NaN \<and> b \<noteq> NaN \<and> \<not> fgt a b)"

subsection \<open>Filter length estimate\<close>

text \<open>
  \<open>lroundf\<close> of \<open>math.h\<close>: the nearest integer, halfway cases away from zero, as a
  \<open>long\<close> of 64 bits. Where the rounded value is not a \<open>long\<close>, or the argument is not
  finite, the C standard leaves the result unspecified: the model takes it from its
  first argument, which stands for the platform.
\<close>

definition lroundf :: "(cfloat \<Rightarrow> int) \<Rightarrow> cfloat \<Rightarrow> int" where
  "lroundf unspecified x =
     (case x of
        Fin r \<Rightarrow>
          (let n = (if 0 \<le> r then \<lfloor>r + 1 / 2\<rfloor> else - \<lfloor>- r + 1 / 2\<rfloor>)
           in if - (2 ^ 63) \<le> n \<and> n < 2 ^ 63 then n else unspecified x)
      | _ \<Rightarrow> unspecified x)"

text \<open>
  \<open>estimate_req_filter_len\<close>. The difference, the product and the quotient are
  single-precision operations; the cast \<open>(unsigned int)\<close> reduces the \<open>long\<close> modulo
  \<open>2 ^ 32\<close>.
\<close>

definition estimate_req_filter_len :: "(cfloat \<Rightarrow> int) \<Rightarrow> cfloat \<Rightarrow> cfloat \<Rightarrow> error + c_uint" where
  "estimate_req_filter_len unspecified b slsl =
     (if fgt b (Fin 0.5) \<or> fle b (Fin 0) then Inl InvalidBandwidth
      else if fle slsl (Fin 0) then Inl InvalidSidelobeLevel
      else if flt slsl (Fin 8) then Inr 2
      else Inr (word_of_int
             (lroundf unspecified (div32 (sub32 slsl (Fin 8)) (mul32 (Fin 14) b)))))"

subsection \<open>Kaiser window design\<close>

text \<open>
  \<open>kaiser_beta_slsl\<close> on a finite argument, as the real function it computes when
  the rounding of its few operations is left out. \<open>powf\<close> is called with a positive
  base only (the branch \<open>_slsl > 21\<close>), where it is the real power \<open>powr\<close>.
\<close>

definition kaiser_beta_slsl :: "real \<Rightarrow> real" where
  "kaiser_beta_slsl slsl0 =
     (let slsl = \<bar>slsl0\<bar>
      in if slsl > 50 then 0.1102 * (slsl - 8.7)
         else if slsl > 21 then 0.5842 * ((slsl - 21) powr 0.4) + 0.07886 * (slsl - 21)
         else 0)"

text \<open>
  The same function on every value of a \<open>float\<close>: \<open>fabsf\<close> of an infinity is the
  positive infinity, which is above 50 and gives an infinite \<open>beta\<close>; on not-a-number
  both comparisons are false and \<open>beta\<close> is \<open>0.0f\<close>.
\<close>

definition kaiser_beta_slsl_float :: "cfloat \<Rightarrow> cfloat" where
  "kaiser_beta_slsl_float slsl =
     (case slsl of
        Fin s \<Rightarrow> Fin (kaiser_beta_slsl s)
      | PInf \<Rightarrow> PInf
      | NInf \<Rightarrow> PInf
      | NaN \<Rightarrow> Fin 0)"

text \<open>
  The functions \<open>sincf\<close> and \<open>kaiser\<close> are declared in \<open>liquid.internal.h\<close> and defined
  in other files of the library; the designs below take them as arguments, as
  functions of \<open>float\<close> (and \<open>unsigned int\<close>) arguments with a \<open>float\<close> result.
\<close>

type_synonym sinc_fn = "cfloat \<Rightarrow> cfloat"
type_synonym window_fn = "c_uint \<Rightarrow> c_uint \<Rightarrow> cfloat \<Rightarrow> cfloat \<Rightarrow> cfloat"

text \<open>
  The loop of \<open>fir_kaiser_window\<close>:
  \<open>t = (float)i - (float)(_n-1)/2 + _mu; _h[i] = sincf(_fc*t) * kaiser(i,_n,beta,_mu);\<close>
\<close>

function kaiser_window_loop ::
  "sinc_fn \<Rightarrow> window_fn \<Rightarrow> c_uint \<Rightarrow> cfloat \<Rightarrow> cfloat \<Rightarrow> cfloat \<Rightarrow> c_uint \<Rightarrow> fbuf \<Rightarrow> fbuf"
where
  "kaiser_window_loop sincf kaiser n fc beta mu i h =
     (if i < n
      then
        let t = add32 (sub32 (uint_to_float i) (div32 (uint_to_float (n - 1)) (Fin 2))) mu;
            h1 = sincf (mul32 fc t);
            h2 = kaiser i n beta mu
        in kaiser_window_loop sincf kaiser n fc beta mu (i + 1) (h(unat i := mul32 h1 h2))
      else h)"
  by pat_completeness auto
termination
proof (relation "measure (\<lambda>(sincf, kaiser, n, fc, beta, mu, i, h). unat n - unat i)")
  show "wf (measure (\<lambda>(sincf :: sinc_fn, kaiser :: window_fn, n :: c_uint, fc :: cfloat,
      beta :: cfloat, mu :: cfloat, i :: c_uint, h :: fbuf). unat n - unat i))"
    by simp
next
  fix sincf :: sinc_fn and kaiser :: window_fn and n i :: c_uint
    and fc beta mu x xa xb :: cfloat and h :: fbuf
  assume "i < n"
  then have less: "unat i < unat n"
    by (simp add: word_less_nat_alt)
  moreover have "unat n < 2 ^ 32"
    using unsigned_less [of n] by simp
  ultimately have "unat i + 1 < 2 ^ 32"
    by linarith
  then have "unat (i + 1) = Suc (unat i)"
    by (simp add: unat_word_ariths)
  with less show "((sincf, kaiser, n, fc, beta, mu, i + 1, h(unat i := mul32 xa xb)),
      (sincf, kaiser, n, fc, beta, mu, i, h))
      \<in> measure (\<lambda>(sincf, kaiser, n, fc, beta, mu, i, h). unat n - unat i)"
    by simp
qed

declare kaiser_window_loop.simps [simp del]

text \<open>
  \<open>fir_kaiser_window\<close>: the three checks in the order of the source, then the loop
  from \<open>i = 0\<close>. The result is the output buffer after the call.
\<close>

definition fir_kaiser_window ::
  "sinc_fn \<Rightarrow> window_fn \<Rightarrow> c_uint \<Rightarrow> cfloat \<Rightarrow> cfloat \<Rightarrow> cfloat \<Rightarrow> fbuf \<Rightarrow> error + fbuf"
where
  "fir_kaiser_window sincf kaiser n fc slsl mu h =
     (if flt mu (Fin (- 0.5)) \<or> fgt mu (Fin 0.5) then Inl MuOutOfRange
      else if flt fc (Fin 0) \<or> fgt fc (Fin 1) then Inl CutoffOutOfRange
      else if n = 0 then Inl ZeroLength
      else
        let beta = kaiser_beta_slsl_float slsl
        in Inr (kaiser_window_loop sincf kaiser n fc beta mu 0 h))"

subsection \<open>Doppler filter design\<close>





subsection \<open>Filter analysis: autocorrelation\<close>

text \<open>
  \<open>abs\<close> of \<open>stdlib.h\<close> on a two's complement machine: the negation wraps, so
  \<open>abs(INT_MIN)\<close> is \<open>INT_MIN\<close>.
\<close>

definition c_abs :: "c_int \<Rightarrow> c_int" where
  "c_abs x = (if sint x < 0 then - x else x)"

text \<open>
  The loop \<open>for (i=_lag; i<_h_len; i++) rxx += _h[i] * _h[i-_lag];\<close>
  with \<open>i\<close> and the accumulator as arguments: a single-precision product and a
  single-precision sum in every pass.
\<close>

function autocorr_loop :: "fbuf \<Rightarrow> c_uint \<Rightarrow> c_uint \<Rightarrow> c_uint \<Rightarrow> cfloat \<Rightarrow> cfloat" where
  "autocorr_loop h h_len lag i rxx =
     (if i < h_len
      then autocorr_loop h h_len lag (i + 1)
             (add32 rxx (mul32 (h (unat i)) (h (unat (i - lag)))))
      else rxx)"
  by pat_completeness auto
termination
proof (relation "measure (\<lambda>(h, h_len, lag, i, rxx). unat h_len - unat i)")
  show "wf (measure (\<lambda>(h :: fbuf, h_len :: c_uint, lag :: c_uint, i :: c_uint, rxx :: cfloat).
      unat h_len - unat i))"
    by simp
next
  fix h :: fbuf and h_len lag i :: c_uint and rxx :: cfloat
  assume "i < h_len"
  then have less: "unat i < unat h_len"
    by (simp add: word_less_nat_alt)
  moreover have "unat h_len < 2 ^ 32"
    using unsigned_less [of h_len] by simp
  ultimately have "unat i + 1 < 2 ^ 32"
    by linarith
  then have "unat (i + 1) = Suc (unat i)"
    by (simp add: unat_word_ariths)
  with less show "((h, h_len, lag, i + 1, add32 rxx (mul32 (h (unat i)) (h (unat (i - lag))))),
      (h, h_len, lag, i, rxx)) \<in> measure (\<lambda>(h, h_len, lag, i, rxx). unat h_len - unat i)"
    by simp
qed

declare autocorr_loop.simps [simp del]

text \<open>
  \<open>liquid_filter_autocorr\<close>: the lag is folded to its absolute value, compared with the
  length as an unsigned value, and the products are accumulated from \<open>0.0f\<close>.
\<close>

definition liquid_filter_autocorr :: "fbuf \<Rightarrow> c_uint \<Rightarrow> c_int \<Rightarrow> cfloat" where
  "liquid_filter_autocorr h h_len lag =
     (let lag' = c_abs lag
      in if h_len \<le> lag' then Fin 0 else autocorr_loop h h_len lag' lag' (Fin 0))"

subsection \<open>Filter analysis: inter-symbol interference\<close>

text \<open>
  The loop \<open>for (i=1; i<=2*_m; i++)\<close> of \<open>liquid_filter_isi\<close>. The lag \<open>i*_k\<close> is an
  unsigned product passed as an \<open>int\<close>.
\<close>

function isi_loop ::
  "fbuf \<Rightarrow> c_uint \<Rightarrow> c_uint \<Rightarrow> c_uint \<Rightarrow> cfloat \<Rightarrow> c_uint \<Rightarrow> cfloat \<Rightarrow> cfloat \<Rightarrow> cfloat \<times> cfloat"
where
  "isi_loop h k m h_len rxx0 i isi_mse isi_max =
     (if i \<le> 2 * m
      then
        let e = div32 (liquid_filter_autocorr h h_len (i * k)) rxx0;
            e = fabsf e;
            isi_mse = add32 isi_mse (mul32 e e);
            isi_max = (if i = 1 \<or> fgt e isi_max then e else isi_max)
        in isi_loop h k m h_len rxx0 (i + 1) isi_mse isi_max
      else (isi_mse, isi_max))"
  by pat_completeness auto
termination
proof (relation "measure (\<lambda>(h, k, m, h_len, rxx0, i, isi_mse, isi_max). Suc (unat (2 * m)) - unat i)")
  show "wf (measure (\<lambda>(h :: fbuf, k :: c_uint, m :: c_uint, h_len :: c_uint, rxx0 :: cfloat,
      i :: c_uint, isi_mse :: cfloat, isi_max :: cfloat). Suc (unat (2 * m)) - unat i))"
    by simp
next
  fix h :: fbuf and k m h_len i :: c_uint
    and rxx0 isi_mse isi_max x xa xb xc :: cfloat
  assume le: "i \<le> 2 * m"
  have "i \<noteq> - 1"
  proof
    assume "i = - 1"
    with le have "- 1 \<le> 2 * m" by simp
    then have "2 * m = (- 1 :: 32 word)" by (simp add: word_order.extremum_unique)
    then have "even (- 1 :: 32 word)" by (metis dvd_triv_left)
    then show False by simp
  qed
  then have "unat i \<noteq> unat (- 1 :: 32 word)"
    by (simp add: word_unat_eq_iff)
  moreover have "unat (- 1 :: 32 word) = 4294967295"
    by (simp add: unsigned_minus_1_eq_mask mask_eq_exp_minus_1)
  moreover have "unat i < 2 ^ 32"
    using unsigned_less [of i] by simp
  ultimately have "unat i + 1 < 2 ^ 32"
    by simp
  then have "unat (i + 1) = Suc (unat i)"
    by (simp add: unat_word_ariths)
  moreover from le have "unat i \<le> unat (2 * m)"
    by (simp add: word_le_nat_alt)
  ultimately show "((h, k, m, h_len, rxx0, i + 1, xb, xc), (h, k, m, h_len, rxx0, i, isi_mse, isi_max))
      \<in> measure (\<lambda>(h, k, m, h_len, rxx0, i, isi_mse, isi_max). Suc (unat (2 * m)) - unat i)"
    by simp
qed

declare isi_loop.simps [simp del]

text \<open>
  \<open>liquid_filter_isi\<close>: the pair is what the function stores through \<open>_mse\<close> and
  \<open>_max\<close>. The divisor of the mean is \<open>(float)(2*_m)\<close>, the unsigned product converted.
\<close>

definition liquid_filter_isi :: "fbuf \<Rightarrow> c_uint \<Rightarrow> c_uint \<Rightarrow> cfloat \<times> cfloat" where
  "liquid_filter_isi h k m =
     (let h_len = 2 * k * m + 1;
          rxx0 = liquid_filter_autocorr h h_len 0;
          (isi_mse, isi_max) = isi_loop h k m h_len rxx0 1 (Fin 0) (Fin 0)
      in (div32 isi_mse (uint_to_float (2 * m)), isi_max))"

subsection \<open>The sums and terms of the specification, in the arithmetic of the code\<close>

text \<open>
  The sum of \<open>f\<close> over a list of indices as a loop of the source computes it:
  accumulated from \<open>0.0f\<close> in the order of the list, every partial sum rounded to single
  precision.
\<close>

definition fsum32 :: "(nat \<Rightarrow> cfloat) \<Rightarrow> nat list \<Rightarrow> cfloat" where
  "fsum32 f js = foldl (\<lambda>acc j. add32 acc (f j)) (Fin 0) js"

text \<open>
  The autocorrelation \<open>r(j)\<close> of the first \<open>L\<close> cells at a lag \<open>j\<close>, both natural
  numbers: the single-precision sum of the single-precision products
  \<open>h[i] * h[i-j]\<close> for \<open>i = j .. L-1\<close>, and zero when \<open>j \<ge> L\<close>.
\<close>

definition autocorr_at :: "fbuf \<Rightarrow> nat \<Rightarrow> nat \<Rightarrow> cfloat" where
  "autocorr_at h L j = (if j < L then fsum32 (\<lambda>i. mul32 (h i) (h (i - j))) [j..<L] else Fin 0)"

text \<open>
  The term \<open>e\<^sub>i = |r(i k) / r(0)|\<close> of the analysis for natural numbers \<open>k\<close>, \<open>m\<close> and
  \<open>i\<close>, with \<open>r\<close> on the length \<open>2 k m + 1\<close> and the quotient in single precision.
\<close>

definition isi_term :: "fbuf \<Rightarrow> nat \<Rightarrow> nat \<Rightarrow> nat \<Rightarrow> cfloat" where
  "isi_term h k m i =
     fabsf (div32 (autocorr_at h (2 * k * m + 1) (i * k)) (autocorr_at h (2 * k * m + 1) 0))"

subsection \<open>The formulas of the specification in exact arithmetic\<close>

text \<open>
  The same quantities on real taps with no rounding, as the specification writes
  them. They are what the results of the code are compared with.
\<close>

definition autocorr_exact :: "(nat \<Rightarrow> real) \<Rightarrow> nat \<Rightarrow> nat \<Rightarrow> real" where
  "autocorr_exact h L j = (if j < L then (\<Sum>i = j..<L. h i * h (i - j)) else 0)"

definition isi_term_exact :: "(nat \<Rightarrow> real) \<Rightarrow> nat \<Rightarrow> nat \<Rightarrow> nat \<Rightarrow> real" where
  "isi_term_exact h k m i =
     \<bar>autocorr_exact h (2 * k * m + 1) (i * k) / autocorr_exact h (2 * k * m + 1) 0\<bar>"

definition isi_mse_exact :: "(nat \<Rightarrow> real) \<Rightarrow> nat \<Rightarrow> nat \<Rightarrow> real" where
  "isi_mse_exact h k m = (\<Sum>i = 1..2 * m. (isi_term_exact h k m i)\<^sup>2) / real (2 * m)"

definition isi_max_exact :: "(nat \<Rightarrow> real) \<Rightarrow> nat \<Rightarrow> nat \<Rightarrow> real" where
  "isi_max_exact h k m = Max (isi_term_exact h k m ` {1..2 * m})"

section \<open>Verification\<close>

subsection \<open>Rounding\<close>

lemma floor_log2_eq:
  assumes "2 powi e \<le> \<bar>x\<bar>" and "\<bar>x\<bar> < 2 powi (e + 1)"
  shows "\<lfloor>log 2 \<bar>x\<bar>\<rfloor> = e"
proof -
  have pos: "0 < \<bar>x\<bar>"
    using assms(1) by (smt (verit) zero_less_power_int)
  have lo: "(2 :: real) powr real_of_int e = 2 powi e"
    by (rule powr_real_of_int') simp_all
  have hi: "(2 :: real) powr real_of_int (e + 1) = 2 powi (e + 1)"
    by (rule powr_real_of_int') simp_all
  have "2 powr real_of_int e \<le> \<bar>x\<bar> \<and> \<bar>x\<bar> < 2 powr real_of_int (e + 1)"
    unfolding lo hi using assms by simp
  with pos show ?thesis
    using floor_log_eq_powr_iff [of "\<bar>x\<bar>" 2 e] by simp
qed

lemma fp_round_at:
  assumes "2 powi e \<le> \<bar>x\<bar>" and "\<bar>x\<bar> < 2 powi (e + 1)"
  shows "fp_round p emin emax x =
     (let u = 2 powi (max emin e - (int p - 1));
          y = of_int (rhe (x / u)) * u
      in if 2 powi (emax + 1) \<le> \<bar>y\<bar> then signed_inf x else Fin y)"
proof -
  have "x \<noteq> 0"
    using assms(1) by (smt (verit) zero_less_power_int abs_zero)
  then show ?thesis
    by (simp add: fp_round_def floor_log2_eq [OF assms])
qed

lemma to_single_at:
  assumes "2 powi e \<le> \<bar>x\<bar>" and "\<bar>x\<bar> < 2 powi (e + 1)"
  shows "to_single (Fin x) =
     (let u = 2 powi (max (- 126) e - 23);
          y = of_int (rhe (x / u)) * u
      in if 2 powi 128 \<le> \<bar>y\<bar> then signed_inf x else Fin y)"
  using fp_round_at [OF assms, of 24 "- 126" 127] by (simp add: to_single_def)

lemma to_single_zero [simp]: "to_single (Fin 0) = Fin 0"
  by (simp add: to_single_def fp_round_def)

lemma to_single_other [simp]:
  "to_single PInf = PInf" "to_single NInf = NInf" "to_single NaN = NaN"
  by (simp_all add: to_single_def)

lemma rhe_ge_floor: "\<lfloor>x\<rfloor> \<le> rhe x"
  by (simp add: rhe_def Let_def)

lemma to_single_ge_one:
  assumes "1 \<le> x"
  shows "to_single (Fin x) \<noteq> Fin 0"
proof -
  define e where "e = \<lfloor>log 2 x\<rfloor>"
  from assms have "0 \<le> log 2 x"
    by simp
  then have e0: "0 \<le> e"
    by (simp add: e_def)
  have "2 powr real_of_int e \<le> 2 powr log 2 x"
    unfolding e_def by (subst powr_le_cancel_iff) simp_all
  also from assms have "\<dots> = x"
    by simp
  finally have "2 powr real_of_int e \<le> x" .
  moreover have "(2 :: real) powr real_of_int e = 2 powi e"
    by (rule powr_real_of_int') simp_all
  ultimately have lo: "2 powi e \<le> x"
    by simp
  define u :: real where "u = 2 powi (e - 23)"
  have upos: "0 < u"
    by (simp add: u_def)
  have "u \<le> 2 powi e"
    unfolding u_def by (rule power_int_increasing) simp_all
  with lo have "u \<le> x"
    by simp
  with upos have "1 \<le> x / u"
    by (simp add: field_simps)
  then have "1 \<le> \<lfloor>x / u\<rfloor>"
    by (simp add: le_floor_iff)
  with rhe_ge_floor [of "x / u"] have "1 \<le> rhe (x / u)"
    by linarith
  then have "rhe (x / u) \<noteq> 0"
    by simp
  moreover from upos have "u \<noteq> 0"
    by simp
  moreover from assms have "x \<noteq> 0" "0 < x" "\<bar>x\<bar> = x"
    by simp_all
  moreover from e0 have "max (- 126) e = e"
    by simp
  ultimately show ?thesis
    by (simp add: to_single_def fp_round_def e_def [symmetric] u_def [symmetric] Let_def
        signed_inf_def)
qed

lemma uint_to_float_zero_iff: "(uint_to_float w = Fin 0) = (w = 0)"
proof (cases "w = 0")
  case True
  then show ?thesis
    by (simp add: uint_to_float_def)
next
  case False
  then have "unat w \<noteq> 0"
    by (simp add: unat_eq_0)
  then have "1 \<le> real (unat w)"
    by linarith
  then have "to_single (Fin (real (unat w))) \<noteq> Fin 0"
    by (rule to_single_ge_one)
  with False show ?thesis
    by (simp only: uint_to_float_def simp_thms)
qed

subsection \<open>Single-precision values of the examples\<close>

text \<open>Each value is found by rounding at the exponent of the argument.\<close>

lemma single_tenth: "to_single (Fin (1 / 10)) = Fin (13421773 / 134217728)"
  using to_single_at [of "- 4" "1 / 10"]
  by (simp add: rhe_def Let_def power_int_minus signed_inf_def)

lemma single_14_tenth: "to_single (Fin (93952411 / 67108864)) = Fin (11744051 / 8388608)"
  using to_single_at [of 0 "93952411 / 67108864"]
  by (simp add: rhe_def Let_def power_int_minus signed_inf_def)

lemma single_52: "to_single (Fin (52)) = Fin (52)"
  using to_single_at [of 5 "52"]
  by (simp add: rhe_def Let_def power_int_minus signed_inf_def)

lemma single_quot_example: "to_single (Fin (436207616 / 11744051)) = Fin (9736777 / 262144)"
  using to_single_at [of 5 "436207616 / 11744051"]
  by (simp add: rhe_def Let_def power_int_minus signed_inf_def)

lemma single_20: "to_single (Fin (20)) = Fin (20)"
  using to_single_at [of 4 "20"]
  by (simp add: rhe_def Let_def power_int_minus signed_inf_def)

lemma single_7_2p20: "to_single (Fin (7 / 1048576)) = Fin (7 / 1048576)"
  using to_single_at [of "- 18" "7 / 1048576"]
  by (simp add: rhe_def Let_def power_int_minus signed_inf_def)

lemma single_quot_rounded: "to_single (Fin (20971520 / 7)) = Fin (5991863 / 2)"
  using to_single_at [of 21 "20971520 / 7"]
  by (simp add: rhe_def Let_def power_int_minus signed_inf_def)

lemma single_7: "to_single (Fin (7)) = Fin (7)"
  using to_single_at [of 2 "7"]
  by (simp add: rhe_def Let_def power_int_minus signed_inf_def)

lemma single_1: "to_single (Fin (1)) = Fin (1)"
  using to_single_at [of 0 "1"]
  by (simp add: rhe_def Let_def power_int_minus signed_inf_def)

lemma single_2: "to_single (Fin (2)) = Fin (2)"
  using to_single_at [of 1 "2"]
  by (simp add: rhe_def Let_def power_int_minus signed_inf_def)

lemma single_m1: "to_single (Fin (- 1)) = Fin (- 1)"
  using to_single_at [of 0 "- 1"]
  by (simp add: rhe_def Let_def power_int_minus signed_inf_def)

lemma single_half: "to_single (Fin (1 / 2)) = Fin (1 / 2)"
  using to_single_at [of "- 1" "1 / 2"]
  by (simp add: rhe_def Let_def power_int_minus signed_inf_def)

lemma single_mhalf: "to_single (Fin (- (1 / 2))) = Fin (- (1 / 2))"
  using to_single_at [of "- 1" "- (1 / 2)"]
  by (simp add: rhe_def Let_def power_int_minus signed_inf_def)

lemma single_2p24: "to_single (Fin (16777216)) = Fin (16777216)"
  using to_single_at [of 24 "16777216"]
  by (simp add: rhe_def Let_def power_int_minus signed_inf_def)

lemma single_2p24_1: "to_single (Fin (16777217)) = Fin (16777216)"
  using to_single_at [of 24 "16777217"]
  by (simp add: rhe_def Let_def power_int_minus signed_inf_def)

lemma single_2p128: "to_single (Fin (340282366920938463463374607431768211456)) = PInf"
  using to_single_at [of 128 "340282366920938463463374607431768211456"]
  by (simp add: rhe_def Let_def power_int_minus signed_inf_def)

lemma single_4: "to_single (Fin 4) = Fin 4"
  using to_single_at [of 2 "4"]
  by (simp add: rhe_def Let_def power_int_minus signed_inf_def)

lemma single_5: "to_single (Fin 5) = Fin 5"
  using to_single_at [of 2 "5"]
  by (simp add: rhe_def Let_def power_int_minus signed_inf_def)

lemma single_6: "to_single (Fin 6) = Fin 6"
  using to_single_at [of 2 "6"]
  by (simp add: rhe_def Let_def power_int_minus signed_inf_def)

lemma single_two_thirds: "to_single (Fin (2 / 3)) = Fin (11184811 / 16777216)"
  using to_single_at [of "- 1" "2 / 3"]
  by (simp add: rhe_def Let_def power_int_minus signed_inf_def)

lemma single_sixth: "to_single (Fin (1 / 6)) = Fin (11184811 / 67108864)"
  using to_single_at [of "- 3" "1 / 6"]
  by (simp add: rhe_def Let_def power_int_minus signed_inf_def)

lemma single_sq1: "to_single (Fin (125099997105721 / 281474976710656)) = Fin (7456541 / 16777216)"
  using to_single_at [of "- 2" "125099997105721 / 281474976710656"]
  by (simp add: rhe_def Let_def power_int_minus signed_inf_def)

lemma single_sq2: "to_single (Fin (125099997105721 / 4503599627370496)) = Fin (7456541 / 268435456)"
  using to_single_at [of "- 6" "125099997105721 / 4503599627370496"]
  by (simp add: rhe_def Let_def power_int_minus signed_inf_def)

lemma single_sq1_again: "to_single (Fin (7456541 / 16777216)) = Fin (7456541 / 16777216)"
  using to_single_at [of "- 2" "7456541 / 16777216"]
  by (simp add: rhe_def Let_def power_int_minus signed_inf_def)

lemma single_sq_sum: "to_single (Fin (126761197 / 268435456)) = Fin (7922575 / 16777216)"
  using to_single_at [of "- 2" "126761197 / 268435456"]
  by (simp add: rhe_def Let_def power_int_minus signed_inf_def)

lemma single_mean: "to_single (Fin (7922575 / 33554432)) = Fin (7922575 / 33554432)"
  using to_single_at [of "- 3" "7922575 / 33554432"]
  by (simp add: rhe_def Let_def power_int_minus signed_inf_def)

text \<open>Not-a-number goes through every operation.\<close>

lemma xadd_nan [simp]: "xadd x NaN = NaN" "xadd NaN x = NaN"
  by (cases x; simp)+

lemma xmul_nan [simp]: "xmul x NaN = NaN" "xmul NaN x = NaN"
  by (cases x; simp)+

lemma xdiv_nan [simp]: "xdiv x NaN = NaN" "xdiv NaN x = NaN"
  by (cases x; simp)+

subsection \<open>Loop counters\<close>

lemma unat_succ_less: "(i :: c_uint) < n \<Longrightarrow> unat (i + 1) = Suc (unat i)"
proof -
  assume "i < n"
  then have "unat i < unat n"
    by (simp add: word_less_nat_alt)
  moreover have "unat n < 2 ^ 32"
    using unsigned_less [of n] by simp
  ultimately have "unat i + 1 < 2 ^ 32"
    by linarith
  then show ?thesis
    by (simp add: unat_word_ariths)
qed

lemma unat_succ_le_even: "(i :: c_uint) \<le> 2 * m \<Longrightarrow> unat (i + 1) = Suc (unat i)"
proof -
  assume le: "i \<le> 2 * m"
  have "i \<noteq> - 1"
  proof
    assume "i = - 1"
    with le have "- 1 \<le> 2 * m"
      by simp
    then have "2 * m = (- 1 :: 32 word)"
      by (simp add: word_order.extremum_unique)
    then have "even (- 1 :: 32 word)"
      by (metis dvd_triv_left)
    then show False
      by simp
  qed
  then have "unat i \<noteq> unat (- 1 :: 32 word)"
    by (simp add: word_unat_eq_iff)
  moreover have "unat (- 1 :: 32 word) = 4294967295"
    by (simp add: unsigned_minus_1_eq_mask mask_eq_exp_minus_1)
  moreover have "unat i < 2 ^ 32"
    using unsigned_less [of i] by simp
  ultimately have "unat i + 1 < 2 ^ 32"
    by simp
  then show ?thesis
    by (simp add: unat_word_ariths)
qed

subsection \<open>The absolute value of a lag\<close>

lemma c_abs_of_int: "c_abs x = word_of_int \<bar>sint x\<bar>"
  by (simp add: c_abs_def abs_if)

lemma uint_c_abs: "uint (c_abs x) = \<bar>sint x\<bar>"
proof -
  have rng: "- (2 ^ 31) \<le> sint x" "sint x < 2 ^ 31"
    using sint_ge [of x] sint_lt [of x] by simp_all
  have "uint (c_abs x) = \<bar>sint x\<bar> mod 2 ^ 32"
    by (simp add: c_abs_of_int uint_word_of_int)
  also have "\<dots> = \<bar>sint x\<bar>"
    using rng by (simp add: abs_if)
  finally show ?thesis .
qed

lemma unat_c_abs: "unat (c_abs x) = nat \<bar>sint x\<bar>"
  by (simp add: unat_eq_nat_uint uint_c_abs)

lemma c_abs_neg: "c_abs (- x) = c_abs x"
proof (cases "sint x = - (2 ^ 31)")
  case True
  then have "word_of_int (sint x) = (word_of_int (- (2 ^ 31)) :: 32 word)"
    by simp
  then have "x = (word_of_int (- (2 ^ 31)) :: 32 word)"
    by simp
  then have "- x = x"
    by simp
  then show ?thesis
    by (simp only:)
next
  case False
  moreover have "- (2 ^ 31) \<le> sint x" "sint x < 2 ^ 31"
    using sint_ge [of x] sint_lt [of x] by simp_all
  ultimately have "sint (- x) = - sint x"
    by (simp add: sint_word_minus signed_take_bit_int_eq_self)
  then show ?thesis
    by (simp add: c_abs_of_int)
qed

text \<open>A natural number below \<open>2^31\<close> is itself as an \<open>unsigned int\<close> and as an \<open>int\<close>.\<close>

lemma unat_of_nat_small: "n < 2 ^ 31 \<Longrightarrow> unat (word_of_nat n :: c_uint) = n"
  by (simp add: unat_of_nat)

lemma sint_of_nat_small: "n < 2 ^ 31 \<Longrightarrow> sint (word_of_nat n :: c_int) = int n"
proof -
  assume small: "n < 2 ^ 31"
  then have "uint (word_of_nat n :: c_int) = int n"
    by (simp add: uint_nat unat_of_nat)
  moreover have "sint (word_of_nat n :: c_int) = signed_take_bit 31 (uint (word_of_nat n :: c_int))"
    by (simp add: sint_uint)
  moreover from small have "signed_take_bit 31 (int n) = int n"
    by (simp add: signed_take_bit_int_eq_self)
  ultimately show ?thesis
    by simp
qed

subsection \<open>Autocorrelation\<close>

text \<open>The loop accumulates the rounded products from its counter up to the length.\<close>

lemma autocorr_loop_fold:
  "lag \<le> i \<Longrightarrow>
    autocorr_loop h L lag i rxx =
      foldl (\<lambda>acc j. add32 acc (mul32 (h j) (h (j - unat lag)))) rxx [unat i..<unat L]"
proof (induction h L lag i rxx rule: autocorr_loop.induct)
  case (1 h h_len lag i rxx)
  show ?case
  proof (cases "i < h_len")
    case True
    then have suc: "unat (i + 1) = Suc (unat i)"
      by (rule unat_succ_less)
    from "1.prems" have "unat lag \<le> unat i"
      by (simp add: word_le_nat_alt)
    with suc have "lag \<le> i + 1"
      by (simp add: word_le_nat_alt)
    with True "1.IH" have "autocorr_loop h h_len lag (i + 1)
          (add32 rxx (mul32 (h (unat i)) (h (unat (i - lag))))) =
        foldl (\<lambda>acc j. add32 acc (mul32 (h j) (h (j - unat lag))))
          (add32 rxx (mul32 (h (unat i)) (h (unat (i - lag))))) [unat (i + 1)..<unat h_len]"
      by simp
    moreover from True have "unat i < unat h_len"
      by (simp add: word_less_nat_alt)
    moreover from "1.prems" have "unat (i - lag) = unat i - unat lag"
      by (rule unat_sub)
    ultimately show ?thesis
      using True suc by (subst autocorr_loop.simps) (simp add: upt_conv_Cons)
  next
    case False
    then have "unat h_len \<le> unat i"
      by (simp add: word_less_nat_alt)
    with False show ?thesis
      by (subst autocorr_loop.simps) simp
  qed
qed

lemma autocorr_closed_form:
  "liquid_filter_autocorr h L lag = autocorr_at h (unat L) (nat \<bar>sint lag\<bar>)"
proof (cases "L \<le> c_abs lag")
  case True
  then have "\<not> nat \<bar>sint lag\<bar> < unat L"
    by (simp add: word_le_nat_alt unat_c_abs)
  with True show ?thesis
    by (simp add: liquid_filter_autocorr_def autocorr_at_def)
next
  case False
  then have "nat \<bar>sint lag\<bar> < unat L"
    by (simp add: word_le_nat_alt unat_c_abs)
  with False show ?thesis
    by (simp add: liquid_filter_autocorr_def autocorr_at_def fsum32_def autocorr_loop_fold
        unat_c_abs)
qed

text \<open>
  Claim C3, as amended. For every buffer \<open>h\<close>, every length \<open>L\<close> and every lag (any
  \<open>int\<close>, \<open>INT_MIN\<close> included), \<open>liquid_filter_autocorr\<close> returns, when \<open>|lag| < L\<close>,
  the single-precision sum of the products \<open>h[i] * h[i-|lag|]\<close> for \<open>i = |lag| .. L-1\<close>:
  accumulated from \<open>0.0f\<close> in increasing \<open>i\<close>, every product and every partial sum
  rounded to single precision. It returns 0 when \<open>|lag| \<ge> L\<close>. Here \<open>|lag|\<close> is the
  absolute value of the lag as an integer. The function has no failure branch: it is
  total, with this value.
\<close>

theorem liquid_filter_autocorr_sum:
  "liquid_filter_autocorr h L lag =
     (if nat \<bar>sint lag\<bar> < unat L
      then fsum32 (\<lambda>i. mul32 (h i) (h (i - nat \<bar>sint lag\<bar>))) [nat \<bar>sint lag\<bar>..<unat L]
      else Fin 0)"
  by (simp add: autocorr_closed_form autocorr_at_def)

text \<open>
  The value is not the exact sum of the products. On the two taps \<open>4096, 1\<close> the
  function returns 16777216 where the exact sum is 16777217: the second product is
  absorbed by the rounding of the sum. On two taps \<open>2^64\<close> each product overflows and
  the function returns the positive infinity, where the exact sum is \<open>2^129\<close>.
\<close>

theorem liquid_filter_autocorr_rounding_counterexample:
  "liquid_filter_autocorr (\<lambda>i. [Fin 4096, Fin 1] ! i) 2 0 = Fin 16777216
   \<and> autocorr_exact (\<lambda>i. [4096, 1] ! i) 2 0 = 16777217
   \<and> liquid_filter_autocorr (\<lambda>i. Fin (2 ^ 64)) 2 0 = PInf
   \<and> autocorr_exact (\<lambda>i. 2 ^ 64) 2 0 = 2 ^ 129"
proof -
  have "liquid_filter_autocorr (\<lambda>i. [Fin 4096, Fin 1] ! i) 2 0 = Fin 16777216"
    by (simp add: liquid_filter_autocorr_def c_abs_def autocorr_loop.simps mul32_def add32_def
        single_1 single_2p24 single_2p24_1)
  moreover have "autocorr_exact (\<lambda>i. [4096, 1] ! i) 2 0 = 16777217"
    by (simp add: autocorr_exact_def numeral_2_eq_2)
  moreover have "liquid_filter_autocorr (\<lambda>i. Fin (2 ^ 64)) 2 0 = PInf"
    by (simp add: liquid_filter_autocorr_def c_abs_def autocorr_loop.simps mul32_def add32_def
        single_2p128)
  moreover have "autocorr_exact (\<lambda>i. 2 ^ 64) 2 0 = 2 ^ 129"
    by (simp add: autocorr_exact_def)
  ultimately show ?thesis
    by (simp only: simp_thms)
qed

text \<open>
  Claim C4. The autocorrelation is even in the lag: negating the lag does not change the
  value, for every buffer, length and lag. The negation is that of \<open>int\<close>, under which
  \<open>INT_MIN\<close> is its own negative.
\<close>

theorem liquid_filter_autocorr_even:
  "liquid_filter_autocorr h L lag = liquid_filter_autocorr h L (- lag)"
  by (simp add: liquid_filter_autocorr_def c_abs_neg)

subsection \<open>Inter-symbol interference\<close>

text \<open>From the second pass on, the loop accumulates the squares and keeps a running maximum.\<close>

lemma isi_loop_fold:
  assumes e: "\<And>j. e j = fabsf (div32 (liquid_filter_autocorr h L (of_nat j * k)) r0)"
  shows "2 \<le> unat i \<Longrightarrow> unat i \<le> Suc (unat (2 * m)) \<Longrightarrow>
    isi_loop h k m L r0 i acc mx =
      (foldl (\<lambda>a j. add32 a (mul32 (e j) (e j))) acc [unat i..<Suc (unat (2 * m))],
       foldl (\<lambda>x j. if fgt (e j) x then e j else x) mx [unat i..<Suc (unat (2 * m))])"
proof (induction "Suc (unat (2 * m)) - unat i" arbitrary: i acc mx)
  case 0
  then have "unat i = Suc (unat (2 * m))"
    by simp
  then have "\<not> i \<le> 2 * m" "[unat i..<Suc (unat (2 * m))] = []"
    by (simp_all add: word_le_nat_alt)
  then show ?case
    by (subst isi_loop.simps) simp
next
  case (Suc d)
  from Suc.hyps(2) Suc.prems have le_nat: "unat i \<le> unat (2 * m)"
    by simp
  then have le: "i \<le> 2 * m"
    by (simp add: word_le_nat_alt)
  then have suc: "unat (i + 1) = Suc (unat i)"
    by (rule unat_succ_le_even)
  from Suc.prems have ne1: "i \<noteq> 1"
    by auto
  have here: "e (unat i) = fabsf (div32 (liquid_filter_autocorr h L (i * k)) r0)"
    by (simp add: e)
  have step: "isi_loop h k m L r0 i acc mx =
      isi_loop h k m L r0 (i + 1) (add32 acc (mul32 (e (unat i)) (e (unat i))))
        (if fgt (e (unat i)) mx then e (unat i) else mx)"
    using le ne1
    by (subst isi_loop.simps) (simp add: Let_def here)
  have rest: "isi_loop h k m L r0 (i + 1) (add32 acc (mul32 (e (unat i)) (e (unat i))))
        (if fgt (e (unat i)) mx then e (unat i) else mx) =
      (foldl (\<lambda>a j. add32 a (mul32 (e j) (e j))) (add32 acc (mul32 (e (unat i)) (e (unat i))))
         [unat (i + 1)..<Suc (unat (2 * m))],
       foldl (\<lambda>x j. if fgt (e j) x then e j else x) (if fgt (e (unat i)) mx then e (unat i) else mx)
         [unat (i + 1)..<Suc (unat (2 * m))])"
    using Suc.hyps(2) Suc.prems suc le_nat
    by (intro Suc.hyps(1)) simp_all
  have range: "[unat i..<Suc (unat (2 * m))] = unat i # [Suc (unat i)..<Suc (unat (2 * m))]"
    using le_nat by (simp add: upt_conv_Cons)
  show ?case
    unfolding step rest suc range by simp
qed

text \<open>
  The running maximum over terms that are not not-a-number is one of them, and none
  of them is greater.
\<close>

lemma fgt_not_sym: "fgt a b \<Longrightarrow> \<not> fgt b a"
  by (cases a; cases b) simp_all

lemma not_fgt_trans:
  "a \<noteq> NaN \<Longrightarrow> b \<noteq> NaN \<Longrightarrow> c \<noteq> NaN \<Longrightarrow> \<not> fgt a b \<Longrightarrow> \<not> fgt b c \<Longrightarrow> \<not> fgt a c"
  by (cases a; cases b; cases c) simp_all

lemma not_fgt_refl: "\<not> fgt a a"
  by (cases a) simp_all

lemma running_max:
  assumes "x \<noteq> NaN" and "\<forall>j\<in>set js. e j \<noteq> NaN"
  shows "foldl (\<lambda>x j. if fgt (e j) x then e j else x) x js \<in> insert x (e ` set js)
    \<and> \<not> fgt x (foldl (\<lambda>x j. if fgt (e j) x then e j else x) x js)
    \<and> (\<forall>j\<in>set js. \<not> fgt (e j) (foldl (\<lambda>x j. if fgt (e j) x then e j else x) x js))
    \<and> foldl (\<lambda>x j. if fgt (e j) x then e j else x) x js \<noteq> NaN"
  using assms
proof (induction js arbitrary: x)
  case Nil
  then show ?case
    by (simp add: not_fgt_refl)
next
  case (Cons a js)
  define y where "y = (if fgt (e a) x then e a else x)"
  define r where "r = foldl (\<lambda>x j. if fgt (e j) x then e j else x) y js"
  from Cons.prems have ea: "e a \<noteq> NaN" and rest: "\<forall>j\<in>set js. e j \<noteq> NaN"
    by simp_all
  with Cons.prems(1) have y: "y \<noteq> NaN"
    by (simp add: y_def)
  from Cons.IH [OF y rest]
  have IH: "r \<in> insert y (e ` set js)" "\<not> fgt y r" "\<forall>j\<in>set js. \<not> fgt (e j) r" "r \<noteq> NaN"
    by (simp_all add: r_def)
  have xy: "\<not> fgt x y"
    by (simp add: y_def fgt_not_sym not_fgt_refl)
  have ay: "\<not> fgt (e a) y"
    by (simp add: y_def not_fgt_refl)
  from Cons.prems(1) y IH(4) xy IH(2) have xr: "\<not> fgt x r"
    by (rule not_fgt_trans)
  from ea y IH(4) ay IH(2) have ar: "\<not> fgt (e a) r"
    by (rule not_fgt_trans)
  have "y = x \<or> y = e a"
    by (simp add: y_def)
  with IH(1) have mem: "r \<in> insert x (e ` set (a # js))"
    by auto
  have "foldl (\<lambda>x j. if fgt (e j) x then e j else x) x (a # js) = r"
    by (simp add: r_def y_def)
  with mem xr ar IH(3) IH(4) show ?case
    by simp
qed

text \<open>When the bound \<open>2*_m\<close> is zero the loop body never runs and the mean is \<open>0/0\<close>.\<close>

lemma isi_no_iteration: "2 * m = 0 \<Longrightarrow> liquid_filter_isi h k m = (NaN, Fin 0)"
proof -
  assume z: "2 * m = 0"
  have "isi_loop h k m L r 1 a b = (a, b)" for L r a b
    by (subst isi_loop.simps) (simp add: z)
  then show ?thesis
    by (simp add: liquid_filter_isi_def Let_def z uint_to_float_def div32_def signed_inf_def)
qed

lemma double_mod_zero:
  assumes "(x::nat) < 4294967296"
  shows "((2 * x) mod 4294967296 = 0) = (x = 0 \<or> x = 2147483648)"
proof (cases "2 * x < 4294967296")
  case True
  then have "(2 * x) mod 4294967296 = 2 * x"
    by simp
  with True show ?thesis
    by auto
next
  case False
  then have "(2 * x) mod 4294967296 = (2 * x - 4294967296) mod 4294967296"
    by (simp add: le_mod_geq)
  also from assms have "\<dots> = 2 * x - 4294967296"
    by simp
  finally show ?thesis
    using False by auto
qed

lemma double_word_zero: "(2 * m = (0 :: c_uint)) = (m = 0 \<or> m = 2147483648)"
proof -
  have "unat (2 * m) = (2 * unat m) mod 4294967296"
    by (simp add: unat_word_ariths)
  moreover have "unat m < 4294967296"
    using unsigned_less [of m] by simp
  ultimately have "(unat (2 * m) = 0) = (unat m = 0 \<or> unat m = 2147483648)"
    by (simp add: double_mod_zero)
  also have "\<dots> = (m = 0 \<or> m = 2147483648)"
    by (simp add: word_unat_eq_iff)
  finally show ?thesis
    by (simp add: unat_eq_0)
qed

text \<open>Without wrap-around the calls of the loop are the autocorrelations at the lags \<open>i k\<close>.\<close>

lemma isi_length_no_wrap:
  assumes "2 * unat k * unat m < 2 ^ 31"
  shows "unat (2 * k * m + 1 :: c_uint) = 2 * unat k * unat m + 1"
proof -
  define N where "N = 2 * unat k * unat m + 1"
  from assms have small: "N < 2 ^ 32"
    unfolding N_def by simp
  have "(2 * k * m + 1 :: c_uint) = word_of_nat N"
    by (simp add: N_def)
  moreover have "unat (word_of_nat N :: c_uint) = N mod 2 ^ 32"
    by (simp add: unat_of_nat)
  moreover from small have "N mod 2 ^ 32 = N"
    by (rule mod_less)
  ultimately show ?thesis
    by (simp only: N_def)
qed

lemma isi_lag_no_wrap:
  assumes "2 * unat k * unat m < 2 ^ 31" and "j \<le> 2 * unat m"
  shows "nat \<bar>sint (word_of_nat j * k :: c_int)\<bar> = j * unat k"
proof -
  from assms(2) have "j * unat k \<le> (2 * unat m) * unat k"
    by (rule mult_le_mono1)
  also have "\<dots> = 2 * unat k * unat m"
    by (simp only: mult_ac)
  finally have small: "j * unat k < 2 ^ 31"
    using assms(1) by (rule le_less_trans)
  have "(word_of_nat j * k :: c_int) = word_of_nat (j * unat k)"
    by simp
  then have "sint (word_of_nat j * k :: c_int) = int (j * unat k)"
    using sint_of_nat_small [OF small] by (simp only:)
  then show ?thesis
    by (simp only: abs_of_nat nat_int)
qed

lemma isi_loop_term:
  assumes "2 * unat k * unat m < 2 ^ 31" and "j \<le> 2 * unat m"
  shows "fabsf (div32 (liquid_filter_autocorr h (2 * k * m + 1) (of_nat j * k))
      (liquid_filter_autocorr h (2 * k * m + 1) 0)) = isi_term h (unat k) (unat m) j"
proof -
  have "nat \<bar>sint (0 :: c_int)\<bar> = 0"
    by simp
  then show ?thesis
    unfolding autocorr_closed_form isi_length_no_wrap [OF assms(1)]
      isi_lag_no_wrap [OF assms] isi_term_def
    by (simp only:)
qed

lemma isi_loop_result:
  assumes m: "m \<noteq> 0" and nowrap: "2 * unat k * unat m < 2 ^ 31" and small: "unat m < 2 ^ 31"
  shows "isi_loop h k m (2 * k * m + 1) (liquid_filter_autocorr h (2 * k * m + 1) 0) 1 (Fin 0) (Fin 0) =
     (fsum32 (\<lambda>i. mul32 (isi_term h (unat k) (unat m) i) (isi_term h (unat k) (unat m) i))
        [1..<Suc (2 * unat m)],
      foldl (\<lambda>x j. if fgt (isi_term h (unat k) (unat m) j) x then isi_term h (unat k) (unat m) j else x)
        (isi_term h (unat k) (unat m) 1) [2..<Suc (2 * unat m)])"
proof -
  define L where "L = 2 * k * m + 1"
  define r0 where "r0 = liquid_filter_autocorr h L 0"
  define e where "e = (\<lambda>j. fabsf (div32 (liquid_filter_autocorr h L (of_nat j * k)) r0))"
  define T where "T = isi_term h (unat k) (unat m)"
  define n where "n = 2 * unat m"
  have n: "unat (2 * m) = n"
    unfolding n_def using small by (simp add: unat_word_ariths)
  from m have "unat m \<noteq> 0"
    by (simp add: unat_eq_0)
  then have n2: "2 \<le> n"
    by (simp add: n_def)
  have eT: "e j = T j" if "j \<le> n" for j
    using that isi_loop_term [OF nowrap, of j h]
    by (simp add: e_def T_def L_def r0_def n_def)
  have first: "(1 :: c_uint) \<le> 2 * m"
    using n n2 by (simp add: word_le_nat_alt)
  have e1: "e 1 = fabsf (div32 (liquid_filter_autocorr h L (1 * k)) r0)"
    by (simp add: e_def)
  have step: "isi_loop h k m L r0 1 (Fin 0) (Fin 0) =
      isi_loop h k m L r0 (1 + 1) (add32 (Fin 0) (mul32 (e 1) (e 1))) (e 1)"
    using first
    by (subst isi_loop.simps) (simp only: e1 Let_def if_True simp_thms)
  have rest: "isi_loop h k m L r0 (1 + 1) (add32 (Fin 0) (mul32 (e 1) (e 1))) (e 1) =
      (foldl (\<lambda>a j. add32 a (mul32 (e j) (e j))) (add32 (Fin 0) (mul32 (e 1) (e 1)))
         [unat (1 + 1 :: c_uint)..<Suc (unat (2 * m))],
       foldl (\<lambda>x j. if fgt (e j) x then e j else x) (e 1)
         [unat (1 + 1 :: c_uint)..<Suc (unat (2 * m))])"
    using n n2 by (intro isi_loop_fold) (simp_all add: e_def)
  have two: "unat (1 + 1 :: c_uint) = 2"
    by simp
  have range: "[1..<Suc n] = 1 # [2..<Suc n]"
    using n2 by (simp add: upt_conv_Cons numeral_2_eq_2)
  have e1T: "e 1 = T 1"
    using n2 by (intro eT) simp
  have cong1: "foldl (\<lambda>a j. add32 a (mul32 (e j) (e j))) a [2..<Suc n] =
      foldl (\<lambda>a j. add32 a (mul32 (T j) (T j))) a [2..<Suc n]" for a
  proof (rule foldl_cong [OF refl refl])
    fix a x
    assume "x \<in> set [2..<Suc n]"
    then have "x \<le> n"
      by auto
    then show "add32 a (mul32 (e x) (e x)) = add32 a (mul32 (T x) (T x))"
      by (simp only: eT)
  qed
  have cong2: "foldl (\<lambda>x j. if fgt (e j) x then e j else x) a [2..<Suc n] =
      foldl (\<lambda>x j. if fgt (T j) x then T j else x) a [2..<Suc n]" for a
  proof (rule foldl_cong [OF refl refl])
    fix a x
    assume "x \<in> set [2..<Suc n]"
    then have "x \<le> n"
      by auto
    then show "(if fgt (e x) a then e x else a) = (if fgt (T x) a then T x else a)"
      by (simp only: eT)
  qed
  have sums: "foldl (\<lambda>a j. add32 a (mul32 (e j) (e j))) (add32 (Fin 0) (mul32 (e 1) (e 1))) [2..<Suc n] =
      foldl (\<lambda>a j. add32 a (mul32 (T j) (T j))) (Fin 0) [1..<Suc n]"
    unfolding range cong1 e1T by (simp only: foldl_Cons)
  have maxs: "foldl (\<lambda>x j. if fgt (e j) x then e j else x) (e 1) [2..<Suc n] =
      foldl (\<lambda>x j. if fgt (T j) x then T j else x) (T 1) [2..<Suc n]"
    unfolding cong2 e1T by (rule refl)
  show ?thesis
    unfolding L_def [symmetric] r0_def [symmetric] T_def [symmetric] n_def [symmetric]
      step rest two n sums maxs fsum32_def
    by (rule refl)
qed

lemma pair_interval: "{Suc 0..2} = {Suc 0, 2}"
  by auto

subsection \<open>What the analysis returns\<close>

text \<open>
  Claim C1, as amended. For every buffer \<open>h\<close> and all \<open>k\<close>, \<open>m\<close> with \<open>1 \<le> m < 2^31\<close>
  and \<open>2 k m < 2^31\<close>, so that \<open>2*_m\<close>, the length \<open>2*_k*_m+1\<close> and every lag \<open>i*_k\<close>
  are computed without wrap-around, \<open>liquid_filter_isi\<close> stores as \<open>mse\<close> the
  single-precision sum of the squares \<open>e\<^sub>i * e\<^sub>i\<close> for \<open>i = 1 .. 2m\<close>, accumulated from
  \<open>0.0f\<close> in increasing \<open>i\<close>, divided in single precision by \<open>(float)(2m)\<close>; and, when
  no \<open>e\<^sub>i\<close> is not-a-number, it stores as \<open>max\<close> one of the terms \<open>e\<^sub>i\<close>, than which none
  is greater. Here \<open>e\<^sub>i = |r(i k) / r(0)|\<close>, the quotient in single precision, and \<open>r\<close> is
  the autocorrelation of claim C3 on the length \<open>2 k m + 1\<close>.
\<close>

theorem liquid_filter_isi_value:
  assumes m: "m \<noteq> 0" and nowrap: "2 * unat k * unat m < 2 ^ 31" and small: "unat m < 2 ^ 31"
  shows "fst (liquid_filter_isi h k m) =
      div32 (fsum32 (\<lambda>i. mul32 (isi_term h (unat k) (unat m) i) (isi_term h (unat k) (unat m) i))
               [1..<Suc (2 * unat m)])
        (to_single (Fin (real (2 * unat m))))
    \<and> ((\<forall>i\<in>{1..2 * unat m}. isi_term h (unat k) (unat m) i \<noteq> NaN) \<longrightarrow>
         snd (liquid_filter_isi h k m) \<in> isi_term h (unat k) (unat m) ` {1..2 * unat m}
         \<and> (\<forall>i\<in>{1..2 * unat m}.
              \<not> fgt (isi_term h (unat k) (unat m) i) (snd (liquid_filter_isi h k m))))"
proof -
  define T where "T = isi_term h (unat k) (unat m)"
  define n where "n = 2 * unat m"
  define mx where "mx = foldl (\<lambda>x j. if fgt (T j) x then T j else x) (T 1) [2..<Suc n]"
  have n: "unat (2 * m) = n"
    unfolding n_def using small by (simp add: unat_word_ariths)
  from m have "unat m \<noteq> 0"
    by (simp add: unat_eq_0)
  then have n2: "2 \<le> n"
    by (simp add: n_def)
  have isi: "liquid_filter_isi h k m =
      (div32 (fsum32 (\<lambda>i. mul32 (T i) (T i)) [1..<Suc n]) (to_single (Fin (real n))), mx)"
    unfolding liquid_filter_isi_def Let_def isi_loop_result [OF assms] uint_to_float_def n
      T_def n_def mx_def
    by simp
  have range: "{1..n} = insert 1 (set [2..<Suc n])"
    using n2 by auto
  have "mx \<in> T ` {1..n} \<and> (\<forall>i\<in>{1..n}. \<not> fgt (T i) mx)" if ok: "\<forall>i\<in>{1..n}. T i \<noteq> NaN"
  proof -
    from ok n2 have first: "T 1 \<noteq> NaN"
      by simp
    from ok have rest: "\<forall>j\<in>set [2..<Suc n]. T j \<noteq> NaN"
      by auto
    from running_max [OF first rest, of ] show ?thesis
      unfolding mx_def [symmetric] range by auto
  qed
  then show ?thesis
    unfolding isi T_def [symmetric] n_def [symmetric] by simp
qed

lemma five_taps_autocorr:
  "liquid_filter_autocorr (\<lambda>i. [Fin 1, Fin 0, Fin 2, Fin 0, Fin 1] ! i) 5 0 = Fin 6"
  "liquid_filter_autocorr (\<lambda>i. [Fin 1, Fin 0, Fin 2, Fin 0, Fin 1] ! i) 5 2 = Fin 4"
  "liquid_filter_autocorr (\<lambda>i. [Fin 1, Fin 0, Fin 2, Fin 0, Fin 1] ! i) 5 4 = Fin 1"
  by (simp_all add: liquid_filter_autocorr_def c_abs_def autocorr_loop.simps mul32_def add32_def
      single_1 single_2 single_4 single_5 single_6)

lemma five_taps_terms:
  "isi_term (\<lambda>i. [Fin 1, Fin 0, Fin 2, Fin 0, Fin 1] ! i) 2 1 1 = Fin (11184811 / 16777216)"
  "isi_term (\<lambda>i. [Fin 1, Fin 0, Fin 2, Fin 0, Fin 1] ! i) 2 1 2 = Fin (11184811 / 67108864)"
proof -
  have nowrap: "2 * unat (2 :: c_uint) * unat (1 :: c_uint) < 2 ^ 31"
    by simp
  from isi_loop_term [OF nowrap, of 1 "\<lambda>i. [Fin 1, Fin 0, Fin 2, Fin 0, Fin 1] ! i"]
  show "isi_term (\<lambda>i. [Fin 1, Fin 0, Fin 2, Fin 0, Fin 1] ! i) 2 1 1 = Fin (11184811 / 16777216)"
    by (simp add: five_taps_autocorr div32_def single_two_thirds)
  from isi_loop_term [OF nowrap, of 2 "\<lambda>i. [Fin 1, Fin 0, Fin 2, Fin 0, Fin 1] ! i"]
  show "isi_term (\<lambda>i. [Fin 1, Fin 0, Fin 2, Fin 0, Fin 1] ! i) 2 1 2 = Fin (11184811 / 67108864)"
    by (simp add: five_taps_autocorr div32_def single_sixth)
qed

lemma five_taps_run:
  "liquid_filter_isi (\<lambda>i. [Fin 1, Fin 0, Fin 2, Fin 0, Fin 1] ! i) 2 1 =
     (Fin (7922575 / 33554432), Fin (11184811 / 16777216))"
  by (simp add: liquid_filter_isi_def isi_loop.simps Let_def five_taps_autocorr div32_def
      add32_def mul32_def uint_to_float_def single_2 single_two_thirds single_sixth single_sq1
      single_sq2 single_sq1_again single_sq_sum single_mean)

text \<open>
  The theorem at the five taps \<open>1, 0, 2, 0, 1\<close> with \<open>k = 2\<close> and \<open>m = 1\<close>, where
  \<open>r(0) = 6\<close>, \<open>r(2) = 4\<close> and \<open>r(4) = 1\<close>. The terms are the single-precision values of
  \<open>2/3\<close> and \<open>1/6\<close>, and running the function gives their rounded mean of squares and
  the first term as the maximum.
\<close>

theorem liquid_filter_isi_value_witness:
  "(1 :: c_uint) \<noteq> 0 \<and> 2 * unat (2 :: c_uint) * unat (1 :: c_uint) < 2 ^ 31
   \<and> unat (1 :: c_uint) < 2 ^ 31
   \<and> isi_term (\<lambda>i. [Fin 1, Fin 0, Fin 2, Fin 0, Fin 1] ! i) 2 1 1 = Fin (11184811 / 16777216)
   \<and> isi_term (\<lambda>i. [Fin 1, Fin 0, Fin 2, Fin 0, Fin 1] ! i) 2 1 2 = Fin (11184811 / 67108864)
   \<and> fst (liquid_filter_isi (\<lambda>i. [Fin 1, Fin 0, Fin 2, Fin 0, Fin 1] ! i) 2 1) =
       div32 (fsum32 (\<lambda>i. mul32 (isi_term (\<lambda>i. [Fin 1, Fin 0, Fin 2, Fin 0, Fin 1] ! i) 2 1 i)
                             (isi_term (\<lambda>i. [Fin 1, Fin 0, Fin 2, Fin 0, Fin 1] ! i) 2 1 i)) [1..<Suc 2])
         (to_single (Fin 2))
   \<and> snd (liquid_filter_isi (\<lambda>i. [Fin 1, Fin 0, Fin 2, Fin 0, Fin 1] ! i) 2 1)
       \<in> isi_term (\<lambda>i. [Fin 1, Fin 0, Fin 2, Fin 0, Fin 1] ! i) 2 1 ` {1..2}
   \<and> \<not> fgt (isi_term (\<lambda>i. [Fin 1, Fin 0, Fin 2, Fin 0, Fin 1] ! i) 2 1 1)
         (snd (liquid_filter_isi (\<lambda>i. [Fin 1, Fin 0, Fin 2, Fin 0, Fin 1] ! i) 2 1))
   \<and> \<not> fgt (isi_term (\<lambda>i. [Fin 1, Fin 0, Fin 2, Fin 0, Fin 1] ! i) 2 1 2)
         (snd (liquid_filter_isi (\<lambda>i. [Fin 1, Fin 0, Fin 2, Fin 0, Fin 1] ! i) 2 1))
   \<and> liquid_filter_isi (\<lambda>i. [Fin 1, Fin 0, Fin 2, Fin 0, Fin 1] ! i) 2 1 =
       (Fin (7922575 / 33554432), Fin (11184811 / 16777216))"
proof -
  have m: "(1 :: c_uint) \<noteq> 0" and nowrap: "2 * unat (2 :: c_uint) * unat (1 :: c_uint) < 2 ^ 31"
    and small: "unat (1 :: c_uint) < 2 ^ 31"
    by simp_all
  have ok: "\<forall>i\<in>{1..2 * unat (1 :: c_uint)}.
      isi_term (\<lambda>i. [Fin 1, Fin 0, Fin 2, Fin 0, Fin 1] ! i) (unat (2 :: c_uint)) (unat (1 :: c_uint)) i \<noteq> NaN"
    using five_taps_terms by (simp add: pair_interval)
  from liquid_filter_isi_value [OF m nowrap small, of "\<lambda>i. [Fin 1, Fin 0, Fin 2, Fin 0, Fin 1] ! i"] ok
  have "fst (liquid_filter_isi (\<lambda>i. [Fin 1, Fin 0, Fin 2, Fin 0, Fin 1] ! i) 2 1) =
       div32 (fsum32 (\<lambda>i. mul32 (isi_term (\<lambda>i. [Fin 1, Fin 0, Fin 2, Fin 0, Fin 1] ! i) 2 1 i)
                             (isi_term (\<lambda>i. [Fin 1, Fin 0, Fin 2, Fin 0, Fin 1] ! i) 2 1 i)) [1..<Suc 2])
         (to_single (Fin 2))"
    and "snd (liquid_filter_isi (\<lambda>i. [Fin 1, Fin 0, Fin 2, Fin 0, Fin 1] ! i) 2 1)
       \<in> isi_term (\<lambda>i. [Fin 1, Fin 0, Fin 2, Fin 0, Fin 1] ! i) 2 1 ` {1..2}"
    and "\<forall>i\<in>{1..2}. \<not> fgt (isi_term (\<lambda>i. [Fin 1, Fin 0, Fin 2, Fin 0, Fin 1] ! i) 2 1 i)
         (snd (liquid_filter_isi (\<lambda>i. [Fin 1, Fin 0, Fin 2, Fin 0, Fin 1] ! i) 2 1))"
    by simp_all
  with five_taps_terms five_taps_run m nowrap small show ?thesis
    by (simp only: pair_interval ball_simps simp_thms) simp
qed

lemma big_taps_autocorr:
  "liquid_filter_autocorr (\<lambda>i. Fin 18446744073709551616) 5 0 = PInf"
  "liquid_filter_autocorr (\<lambda>i. Fin 18446744073709551616) 5 2 = PInf"
  "liquid_filter_autocorr (\<lambda>i. Fin 18446744073709551616) 5 4 = PInf"
  by (simp_all add: liquid_filter_autocorr_def c_abs_def autocorr_loop.simps mul32_def add32_def
      single_2p128)

text \<open>
  The outputs are not the values of the formulas in exact arithmetic. Five taps \<open>2^64\<close>
  with \<open>k = 2\<close> and \<open>m = 1\<close> have \<open>r(0) = 5 * 2^128\<close>, which is not zero, and the exact
  formulas give the mean \<open>1/5\<close> and the maximum \<open>3/5\<close>; in the code every product
  overflows, \<open>r(0)\<close> is the positive infinity, every term is not-a-number, and so are
  both outputs. At \<open>k = 2\<close> and \<open>m = 2^31\<close> the loop bound \<open>2*_m\<close> wraps around to 0,
  the loop body never runs and the mean is \<open>0/0\<close>.
\<close>

theorem liquid_filter_isi_overflow_counterexample:
  "(1 :: c_uint) \<le> 1
   \<and> liquid_filter_autocorr (\<lambda>i. Fin (2 ^ 64)) (2 * 2 * 1 + 1) 0 = PInf
   \<and> liquid_filter_isi (\<lambda>i. Fin (2 ^ 64)) 2 1 = (NaN, NaN)
   \<and> isi_mse_exact (\<lambda>i. 2 ^ 64) 2 1 = 1 / 5
   \<and> isi_max_exact (\<lambda>i. 2 ^ 64) 2 1 = 3 / 5
   \<and> liquid_filter_isi (\<lambda>i. Fin 1) 2 2147483648 = (NaN, Fin 0)"
proof -
  have "liquid_filter_isi (\<lambda>i. Fin (2 ^ 64)) 2 1 = (NaN, NaN)"
    by (simp add: liquid_filter_isi_def isi_loop.simps Let_def big_taps_autocorr div32_def
        add32_def mul32_def)
  moreover have terms:
    "isi_term_exact (\<lambda>i. 18446744073709551616) 2 (Suc 0) (Suc 0) = 3 / 5"
    "isi_term_exact (\<lambda>i. 18446744073709551616) 2 (Suc 0) 2 = 1 / 5"
    by (simp_all add: isi_term_exact_def autocorr_exact_def)
  have "isi_mse_exact (\<lambda>i. 2 ^ 64) 2 1 = 1 / 5" "isi_max_exact (\<lambda>i. 2 ^ 64) 2 1 = 3 / 5"
    by (simp_all add: isi_mse_exact_def isi_max_exact_def pair_interval terms power2_eq_square)
  moreover have "liquid_filter_autocorr (\<lambda>i. Fin (2 ^ 64)) (2 * 2 * 1 + 1) 0 = PInf"
    by (simp add: big_taps_autocorr)
  moreover have "liquid_filter_isi (\<lambda>i. Fin 1) 2 2147483648 = (NaN, Fin 0)"
    by (rule isi_no_iteration) simp
  ultimately show ?thesis
    by (simp only: simp_thms order_refl)
qed

text \<open>
  With the all-zero buffer every autocorrelation is zero, every term is \<open>0/0\<close>, and
  not-a-number stays in both accumulators.
\<close>

lemma fsum32_zero:
  assumes "\<And>j. j \<in> set js \<Longrightarrow> f j = Fin 0"
  shows "fsum32 f js = Fin 0"
proof -
  have "foldl (\<lambda>acc j. add32 acc (f j)) (Fin 0) js = Fin 0"
    using assms by (induction js rule: rev_induct) (simp_all add: add32_def)
  then show ?thesis
    by (simp add: fsum32_def)
qed

lemma autocorr_zero_buffer: "liquid_filter_autocorr (\<lambda>i. Fin 0) L lag = Fin 0"
  by (simp add: autocorr_closed_form autocorr_at_def fsum32_zero mul32_def)

lemma isi_loop_nan:
  assumes zero: "\<And>lag. liquid_filter_autocorr h L lag = Fin 0"
  shows "isi_loop h k m L (Fin 0) i NaN NaN = (NaN, NaN)"
proof (induction "Suc (unat (2 * m)) - unat i" arbitrary: i)
  case 0
  then have "\<not> i \<le> 2 * m"
    by (simp add: word_le_nat_alt)
  then show ?case
    by (subst isi_loop.simps) simp
next
  case (Suc d)
  then have le: "i \<le> 2 * m"
    by (simp add: word_le_nat_alt)
  then have "unat (i + 1) = Suc (unat i)"
    by (rule unat_succ_le_even)
  with Suc.hyps(2) have "d = Suc (unat (2 * m)) - unat (i + 1)"
    by simp
  note IH = Suc.hyps(1) [OF this]
  from le have "isi_loop h k m L (Fin 0) i NaN NaN = isi_loop h k m L (Fin 0) (i + 1) NaN NaN"
    by (subst isi_loop.simps)
      (simp add: Let_def zero div32_def add32_def mul32_def signed_inf_def)
  then show ?case
    by (simp only: IH)
qed

text \<open>
  Claim C2. The case \<open>r(0) = 0\<close> is not guarded. For the all-zero buffer, and every
  \<open>k\<close> and \<open>m\<close> whose loop bound \<open>2*_m\<close> is not zero (so that the loop runs), the
  reference \<open>r(0)\<close> is 0, each term is divided by it, and the function returns
  not-a-number in both outputs; it has no failure result to report instead.
\<close>

theorem liquid_filter_isi_zero_reference:
  assumes "2 * m \<noteq> 0"
  shows "liquid_filter_autocorr (\<lambda>i. Fin 0) (2 * k * m + 1) 0 = Fin 0
    \<and> liquid_filter_isi (\<lambda>i. Fin 0) k m = (NaN, NaN)"
proof -
  from assms have "unat (2 * m) \<noteq> 0"
    by (simp add: unat_eq_0)
  then have first: "(1 :: c_uint) \<le> 2 * m"
    by (simp add: word_le_nat_alt)
  have "isi_loop (\<lambda>i. Fin 0) k m (2 * k * m + 1) (Fin 0) 1 (Fin 0) (Fin 0) =
      isi_loop (\<lambda>i. Fin 0) k m (2 * k * m + 1) (Fin 0) (1 + 1) NaN NaN"
    using first
    by (subst isi_loop.simps)
      (simp add: Let_def autocorr_zero_buffer div32_def add32_def mul32_def signed_inf_def)
  also have "\<dots> = (NaN, NaN)"
    by (rule isi_loop_nan) (rule autocorr_zero_buffer)
  finally show ?thesis
    by (simp add: liquid_filter_isi_def autocorr_zero_buffer div32_def)
qed

text \<open>The theorem at \<open>k = 2\<close>, \<open>m = 1\<close>: five zero taps.\<close>

theorem liquid_filter_isi_zero_reference_witness:
  "2 * (1 :: c_uint) \<noteq> 0
   \<and> liquid_filter_autocorr (\<lambda>i. Fin 0) (2 * 2 * 1 + 1) 0 = Fin 0
   \<and> liquid_filter_isi (\<lambda>i. Fin 0) 2 1 = (NaN, NaN)"
proof -
  have m: "2 * (1 :: c_uint) \<noteq> 0"
    by simp
  from liquid_filter_isi_zero_reference [OF m, of 2] m show ?thesis
    by blast
qed

text \<open>
  Claim C10, as amended. With \<open>m = 0\<close>, for every \<open>k\<close> and every buffer, the loop
  returns its initial accumulators (it runs zero times), the mean-squared output is
  \<open>0\<close> divided by \<open>(float)(2*0) = 0\<close>, which is not-a-number, and the maximum output is
  0. The divisor \<open>(float)(2*_m)\<close> is zero exactly when \<open>m = 0\<close> or \<open>m = 2^31\<close>: it is
  nonzero for \<open>1 \<le> m < 2^31\<close>, not for every \<open>m \<ge> 1\<close>.
\<close>

theorem liquid_filter_isi_no_symbols:
  "liquid_filter_isi h k 0 = (NaN, Fin 0)
   \<and> isi_loop h k 0 h_len rxx0 1 (Fin 0) (Fin 0) = (Fin 0, Fin 0)
   \<and> div32 (Fin 0) (uint_to_float (2 * (0 :: c_uint))) = NaN
   \<and> ((uint_to_float (2 * m) = Fin 0) = (m = 0 \<or> m = (2147483648 :: c_uint)))"
proof -
  have "isi_loop h k 0 h_len rxx0 1 (Fin 0) (Fin 0) = (Fin 0, Fin 0)"
    by (subst isi_loop.simps) simp
  moreover have "liquid_filter_isi h k 0 = (NaN, Fin 0)"
    by (rule isi_no_iteration) simp
  moreover have "(uint_to_float (2 * m) = Fin 0) = (m = 0 \<or> m = 2147483648)"
    by (simp only: uint_to_float_zero_iff double_word_zero)
  moreover have "div32 (Fin 0) (uint_to_float (2 * (0 :: c_uint))) = NaN"
    by (simp add: uint_to_float_def div32_def signed_inf_def)
  ultimately show ?thesis
    by (simp only: simp_thms)
qed

text \<open>
  At \<open>m = 2^31\<close>, which is at least 1, the product \<open>2*_m\<close> wraps around to 0: the
  divisor is zero and the mean-squared output is not-a-number.
\<close>

theorem liquid_filter_isi_divisor_counterexample:
  "(1 :: c_uint) \<le> 2147483648
   \<and> uint_to_float (2 * (2147483648 :: c_uint)) = Fin 0
   \<and> liquid_filter_isi (\<lambda>i. Fin 1) 2 2147483648 = (NaN, Fin 0)"
proof -
  have "liquid_filter_isi (\<lambda>i. Fin 1) 2 2147483648 = (NaN, Fin 0)"
    by (rule isi_no_iteration) simp
  moreover have "uint_to_float (2 * (2147483648 :: c_uint)) = Fin 0"
    by (simp add: uint_to_float_zero_iff)
  ultimately show ?thesis
    by simp
qed

subsection \<open>Filter length estimate\<close>

text \<open>
  Claim C5, as amended. For every bandwidth \<open>b\<close> in \<open>(0, 0.5]\<close> and every sidelobe level
  \<open>slsl > 0\<close>, \<open>estimate_req_filter_len\<close> returns 2 when \<open>slsl < 8\<close> and otherwise the
  value of \<open>lroundf\<close> on the quotient \<open>(slsl - 8) / (14 b)\<close>, the difference, the product
  and the quotient computed in single precision, converted to \<open>unsigned int\<close>. The
  result has no minimum of 2.
\<close>

theorem estimate_req_filter_len_value:
  assumes "0 < b" and "b \<le> 1 / 2" and "0 < slsl"
  shows "estimate_req_filter_len unspecified (Fin b) (Fin slsl) =
      Inr (if slsl < 8 then 2
           else word_of_int
                  (lroundf unspecified (div32 (sub32 (Fin slsl) (Fin 8)) (mul32 (Fin 14) (Fin b)))))"
  using assms by (simp add: estimate_req_filter_len_def fle_def flt_def)

text \<open>
  The theorem at \<open>b = 2^-21\<close> and \<open>slsl = 28\<close>: the quotient \<open>20 / (14 * 2^-21)\<close> is
  \<open>2995931.43\<close>, its single-precision value is \<open>2995931.5\<close>, and the function returns
  2995932.
\<close>

theorem estimate_req_filter_len_value_witness:
  "(0 :: real) < 1 / 2097152 \<and> (1 / 2097152 :: real) \<le> 1 / 2 \<and> (0 :: real) < 28
   \<and> estimate_req_filter_len (\<lambda>x. 0) (Fin (1 / 2097152)) (Fin 28) = Inr 2995932"
proof -
  have "div32 (sub32 (Fin 28) (Fin 8)) (mul32 (Fin 14) (Fin (1 / 2097152))) = Fin (5991863 / 2)"
    by (simp add: div32_def sub32_def mul32_def xsub_def single_20 single_7_2p20
        single_quot_rounded)
  then have "lroundf (\<lambda>x. 0) (div32 (sub32 (Fin 28) (Fin 8)) (mul32 (Fin 14) (Fin (1 / 2097152))))
      = 2995932"
    by (simp add: lroundf_def)
  with estimate_req_filter_len_value [of "1 / 2097152" 28 "\<lambda>x. 0"] show ?thesis
    by simp
qed

text \<open>
  At \<open>b = 0.5\<close> and \<open>slsl = 8\<close>, both in range, the quotient is \<open>0 / 7\<close> and the
  function returns 0 taps, which is less than 2. At \<open>b = 2^-21\<close> and \<open>slsl = 28\<close> it
  returns 2995932, where the rounding of the exact quotient is 2995931.
\<close>

theorem estimate_req_filter_len_clamp_counterexample:
  "(0 :: real) < 1 / 2 \<and> (1 / 2 :: real) \<le> 1 / 2 \<and> (0 :: real) < 8
   \<and> estimate_req_filter_len (\<lambda>x. 0) (Fin (1 / 2)) (Fin 8) = Inr 0 \<and> (0 :: c_uint) < 2
   \<and> (0 :: real) < 1 / 2097152 \<and> (1 / 2097152 :: real) \<le> 1 / 2 \<and> (8 :: real) \<le> 28
   \<and> estimate_req_filter_len (\<lambda>x. 0) (Fin (1 / 2097152)) (Fin 28) = Inr 2995932
   \<and> round ((28 - 8) / (14 * (1 / 2097152)) :: real) = 2995931"
proof -
  have "div32 (sub32 (Fin 8) (Fin 8)) (mul32 (Fin 14) (Fin (1 / 2))) = Fin 0"
    by (simp add: div32_def sub32_def mul32_def xsub_def single_7)
  then have low: "estimate_req_filter_len (\<lambda>x. 0) (Fin (1 / 2)) (Fin 8) = Inr 0"
    by (simp add: estimate_req_filter_len_def fle_def flt_def lroundf_def)
  have "div32 (sub32 (Fin 28) (Fin 8)) (mul32 (Fin 14) (Fin (1 / 2097152))) = Fin (5991863 / 2)"
    by (simp add: div32_def sub32_def mul32_def xsub_def single_20 single_7_2p20
        single_quot_rounded)
  then have up: "estimate_req_filter_len (\<lambda>x. 0) (Fin (1 / 2097152)) (Fin 28) = Inr 2995932"
    by (simp add: estimate_req_filter_len_def fle_def flt_def lroundf_def)
  have "round ((28 - 8) / (14 * (1 / 2097152)) :: real) = 2995931"
    by (simp add: round_def)
  with low up show ?thesis
    by simp
qed

lemma example_quotient:
  "div32 (sub32 (Fin 60) (Fin 8)) (mul32 (Fin 14) (Fin (13421773 / 134217728))) =
     Fin (9736777 / 262144)"
  by (simp add: div32_def sub32_def mul32_def xsub_def single_tenth single_14_tenth single_52
      single_quot_example)

text \<open>
  Claim C6, as amended. At \<open>b = 0.1\<close> and \<open>slsl = 60\<close>, both as \<open>float\<close> values, the
  function returns 37: the single-precision quotient is \<open>37.14286\<close>.
\<close>

theorem estimate_req_filter_len_example:
  "estimate_req_filter_len unspecified (to_single (Fin (1 / 10))) (Fin 60) = Inr 37"
proof -
  have "lroundf unspecified (Fin (9736777 / 262144)) = 37"
    by (simp add: lroundf_def)
  then show ?thesis
    by (simp add: estimate_req_filter_len_def fle_def flt_def example_quotient single_tenth)
qed

text \<open>The value at \<open>b = 0.1\<close> and \<open>slsl = 60\<close> is not 38.\<close>

theorem estimate_req_filter_len_example_counterexample:
  "estimate_req_filter_len (\<lambda>x. 0) (to_single (Fin (1 / 10))) (Fin 60) \<noteq> Inr 38"
proof -
  have "lroundf (\<lambda>x. 0) (Fin (9736777 / 262144)) = 37"
    by (simp add: lroundf_def)
  then show ?thesis
    by (simp add: estimate_req_filter_len_def fle_def flt_def example_quotient single_tenth)
qed

subsection \<open>Kaiser window design\<close>


text \<open>Each design loop assigns the cells from its counter up to the tap count.\<close>

lemma uint_to_float_of_nat:
  "i < unat (n :: c_uint) \<Longrightarrow> uint_to_float (word_of_nat i) = to_single (Fin (real i))"
proof -
  assume "i < unat n"
  moreover have "unat n < 2 ^ 32"
    using unsigned_less [of n] by simp
  ultimately have "i < 2 ^ 32"
    by linarith
  then have "unat (word_of_nat i :: c_uint) = i"
    by (simp add: unat_of_nat)
  then show ?thesis
    by (simp only: uint_to_float_def)
qed

lemma uint_to_float_pred:
  "(n :: c_uint) \<noteq> 0 \<Longrightarrow> uint_to_float (n - 1) = to_single (Fin (real (unat n - 1)))"
proof -
  assume "n \<noteq> 0"
  then have "unat (n - 1) = unat n - 1"
    by (simp add: unat_minus_one)
  then show ?thesis
    by (simp only: uint_to_float_def)
qed

lemma kaiser_window_loop_cells:
  "kaiser_window_loop sincf kaiser n fc beta mu i h =
     (\<lambda>j. if unat i \<le> j \<and> j < unat n
          then mul32
                 (sincf (mul32 fc
                    (add32 (sub32 (uint_to_float (of_nat j)) (div32 (uint_to_float (n - 1)) (Fin 2))) mu)))
                 (kaiser (of_nat j) n beta mu)
          else h j)"
proof (induction "unat n - unat i" arbitrary: i h)
  case 0
  then have "\<not> i < n"
    by (simp add: word_less_nat_alt)
  with 0 show ?case
    by (subst kaiser_window_loop.simps) (auto simp: fun_eq_iff)
next
  case (Suc d)
  then have less: "i < n"
    by (simp add: word_less_nat_alt)
  then have less_nat: "unat i < unat n"
    by (simp add: word_less_nat_alt)
  from less have suc: "unat (i + 1) = Suc (unat i)"
    by (rule unat_succ_less)
  with Suc.hyps(2) have "d = unat n - unat (i + 1)"
    by simp
  note IH = Suc.hyps(1) [OF this]
  show ?case
    using less less_nat suc
    by (subst kaiser_window_loop.simps) (auto simp: fun_eq_iff Let_def IH)
qed


lemma fir_kaiser_window_valid:
  assumes "n \<noteq> 0" and "\<not> flt fc (Fin 0)" and "\<not> fgt fc (Fin 1)"
    and "\<not> flt mu (Fin (- (1 / 2)))" and "\<not> fgt mu (Fin (1 / 2))"
  shows "fir_kaiser_window sincf kaiser n fc slsl mu h =
     Inr (\<lambda>i. if i < unat n
               then mul32
                      (sincf (mul32 fc
                         (add32
                            (sub32 (to_single (Fin (real i)))
                               (div32 (to_single (Fin (real (unat n - 1)))) (Fin 2)))
                            mu)))
                      (kaiser (word_of_nat i) n (kaiser_beta_slsl_float slsl) mu)
               else h i)"
proof -
  have "kaiser_window_loop sincf kaiser n fc (kaiser_beta_slsl_float slsl) mu 0 h =
     (\<lambda>i. if i < unat n
          then mul32
                 (sincf (mul32 fc
                    (add32
                       (sub32 (to_single (Fin (real i)))
                          (div32 (to_single (Fin (real (unat n - 1)))) (Fin 2)))
                       mu)))
                 (kaiser (word_of_nat i) n (kaiser_beta_slsl_float slsl) mu)
          else h i)"
    unfolding kaiser_window_loop_cells uint_to_float_pred [OF assms(1)]
    by (auto simp: fun_eq_iff uint_to_float_of_nat)
  with assms show ?thesis
    by (simp add: fir_kaiser_window_def Let_def)
qed

lemma fir_kaiser_window_fails:
  "(\<exists>e. fir_kaiser_window sincf kaiser n fc slsl mu h = Inl e) =
     (n = 0 \<or> flt fc (Fin 0) \<or> fgt fc (Fin 1) \<or> flt mu (Fin (- (1 / 2))) \<or> fgt mu (Fin (1 / 2)))"
  by (auto simp: fir_kaiser_window_def Let_def)

text \<open>
  Claim C8, as amended. \<open>fir_kaiser_window\<close> fails if and only if \<open>N = 0\<close>, or
  \<open>fc < 0\<close>, or \<open>fc > 1\<close>, or \<open>mu < -0.5\<close>, or \<open>mu > 0.5\<close>, where a comparison with
  not-a-number is false: an \<open>fc\<close> or \<open>mu\<close> that is not-a-number is not rejected. On
  every input that passes the checks it returns the output buffer with the cells
  \<open>0 .. N-1\<close> assigned, cell \<open>i\<close> holding \<open>sincf(fc t) * kaiser(i, N, beta, mu)\<close> with
  \<open>t = i - (N-1)/2 + mu\<close> and \<open>beta = kaiser_beta_slsl(slsl)\<close>, the operations in single
  precision, and every other cell as it was.
\<close>

theorem fir_kaiser_window_contract:
  "((\<exists>e. fir_kaiser_window sincf kaiser n fc slsl mu h = Inl e) =
      (n = 0 \<or> flt fc (Fin 0) \<or> fgt fc (Fin 1) \<or> flt mu (Fin (- (1 / 2))) \<or> fgt mu (Fin (1 / 2))))
   \<and> (n \<noteq> 0 \<and> \<not> flt fc (Fin 0) \<and> \<not> fgt fc (Fin 1)
        \<and> \<not> flt mu (Fin (- (1 / 2))) \<and> \<not> fgt mu (Fin (1 / 2)) \<longrightarrow>
        fir_kaiser_window sincf kaiser n fc slsl mu h =
          Inr (\<lambda>i. if i < unat n
                    then mul32
                           (sincf (mul32 fc
                              (add32
                                 (sub32 (to_single (Fin (real i)))
                                    (div32 (to_single (Fin (real (unat n - 1)))) (Fin 2)))
                                 mu)))
                           (kaiser (word_of_nat i) n (kaiser_beta_slsl_float slsl) mu)
                    else h i))"
  using fir_kaiser_window_fails fir_kaiser_window_valid by blast

text \<open>
  The theorem at \<open>N = 3\<close>, \<open>fc = 0.5\<close>, \<open>mu = 0\<close>, with the identity for \<open>sincf\<close>, the
  constant 1 for \<open>kaiser\<close> and a buffer of sevens: three cells are assigned.
\<close>

theorem fir_kaiser_window_contract_witness:
  "(3 :: c_uint) \<noteq> 0 \<and> \<not> flt (Fin (1 / 2)) (Fin 0) \<and> \<not> fgt (Fin (1 / 2)) (Fin 1)
   \<and> \<not> flt (Fin 0) (Fin (- (1 / 2))) \<and> \<not> fgt (Fin 0) (Fin (1 / 2))
   \<and> fir_kaiser_window (\<lambda>x. x) (\<lambda>i n beta mu. Fin 1) 3 (Fin (1 / 2)) (Fin 40) (Fin 0) (\<lambda>i. Fin 7) =
         Inr (\<lambda>i. if i < 3 then Fin ((real i - 1) / 2) else Fin 7)
   \<and> \<not> (\<exists>e. fir_kaiser_window (\<lambda>x. x) (\<lambda>i n beta mu. Fin 1) 3 (Fin (1 / 2)) (Fin 40) (Fin 0)
              (\<lambda>i. Fin 7) = Inl e)"
proof -
  have cells: "(if i < 3 then mul32 (mul32 (Fin (1 / 2))
          (add32 (sub32 (to_single (Fin (real i))) (div32 (to_single (Fin (real (unat (3 :: c_uint) - 1)))) (Fin 2)))
             (Fin 0))) (Fin 1) else Fin 7) =
      (if i < 3 then Fin ((real i - 1) / 2) else Fin 7)" for i :: nat
  proof (cases "i < 3")
    case True
    then consider "i = 0" | "i = 1" | "i = 2"
      by linarith
    then show ?thesis
      by cases
        (simp_all add: mul32_def add32_def sub32_def div32_def xsub_def single_1 single_2 single_m1
          single_half single_mhalf)
  next
    case False
    then show ?thesis
      by simp
  qed
  show ?thesis
    using fir_kaiser_window_contract
      [where sincf = "\<lambda>x. x" and kaiser = "\<lambda>i n beta mu. Fin 1" and n = 3 and fc = "Fin (1 / 2)"
         and slsl = "Fin 40" and mu = "Fin 0" and h = "\<lambda>i. Fin 7"]
    by (simp add: flt_def cells)
qed

text \<open>
  With \<open>mu\<close> not-a-number, which is not a value of \<open>[-0.5, 0.5]\<close>, and \<open>N = 1\<close>,
  \<open>fc = 0.5\<close>, the function does not fail: it assigns cell 0.
\<close>

theorem fir_kaiser_window_nan_counterexample:
  "\<not> (fle (Fin (- (1 / 2))) NaN \<and> fle NaN (Fin (1 / 2)))
   \<and> fir_kaiser_window (\<lambda>x. x) (\<lambda>i n beta mu. Fin 1) 1 (Fin (1 / 2)) (Fin 40) NaN (\<lambda>i. Fin 7) =
        Inr (\<lambda>i. if i < 1 then NaN else Fin 7)
   \<and> \<not> (\<exists>e. fir_kaiser_window (\<lambda>x. x) (\<lambda>i n beta mu. Fin 1) 1 (Fin (1 / 2)) (Fin 40) NaN
              (\<lambda>i. Fin 7) = Inl e)"
proof -
  have "(1 :: c_uint) \<noteq> 0" "\<not> flt (Fin (1 / 2)) (Fin 0)" "\<not> fgt (Fin (1 / 2)) (Fin 1)"
    "\<not> flt NaN (Fin (- (1 / 2)))" "\<not> fgt NaN (Fin (1 / 2))"
    by (simp_all add: flt_def)
  from fir_kaiser_window_valid [OF this, of "\<lambda>x. x" "\<lambda>i n beta mu. Fin 1" "Fin 40" "\<lambda>i. Fin 7"]
  show ?thesis
    by (auto simp: fun_eq_iff fle_def mul32_def add32_def)
qed

subsection \<open>Doppler filter design\<close>


end
